theory Spec2Isabelle
  imports Complex_Main "HOL-Library.Sublist"
begin

section \<open>Python strings\<close>

text \<open>
  A Python \<open>str\<close> is modelled as a \<open>string\<close> restricted to the ASCII range: the
  character classes and case mappings below are those of \<open>str.isalpha\<close>,
  \<open>str.isdigit\<close>, \<open>str.isalnum\<close>, \<open>str.isspace\<close>, \<open>str.upper\<close> and \<open>str.lower\<close>
  on code points below 128; a character at or above 128 is in no class and has no case.
\<close>

definition char_isupper :: "char \<Rightarrow> bool" where
  "char_isupper c = (65 \<le> (of_char c :: nat) \<and> (of_char c :: nat) \<le> 90)"

definition char_islower :: "char \<Rightarrow> bool" where
  "char_islower c = (97 \<le> (of_char c :: nat) \<and> (of_char c :: nat) \<le> 122)"

definition char_isalpha :: "char \<Rightarrow> bool" where
  "char_isalpha c = (char_isupper c \<or> char_islower c)"

definition char_isdigit :: "char \<Rightarrow> bool" where
  "char_isdigit c = (48 \<le> (of_char c :: nat) \<and> (of_char c :: nat) \<le> 57)"

definition char_isalnum :: "char \<Rightarrow> bool" where
  "char_isalnum c = (char_isalpha c \<or> char_isdigit c)"

definition char_isspace :: "char \<Rightarrow> bool" where
  "char_isspace c =
     ((9 \<le> (of_char c :: nat) \<and> (of_char c :: nat) \<le> 13) \<or>
      (28 \<le> (of_char c :: nat) \<and> (of_char c :: nat) \<le> 32))"

definition char_upper :: "char \<Rightarrow> char" where
  "char_upper c = (if char_islower c then char_of ((of_char c :: nat) - 32) else c)"

definition char_lower :: "char \<Rightarrow> char" where
  "char_lower c = (if char_isupper c then char_of ((of_char c :: nat) + 32) else c)"

text \<open>\<open>s.isalpha()\<close> and \<open>s.isalnum()\<close>: every character is in the class and there is
  at least one character.\<close>

definition isalpha :: "string \<Rightarrow> bool" where
  "isalpha s = (s \<noteq> [] \<and> list_all char_isalpha s)"

definition isalnum :: "string \<Rightarrow> bool" where
  "isalnum s = (s \<noteq> [] \<and> list_all char_isalnum s)"

definition upper :: "string \<Rightarrow> string" where
  "upper s = map char_upper s"

definition lower :: "string \<Rightarrow> string" where
  "lower s = map char_lower s"

text \<open>\<open>s[i:j]\<close> for \<open>0 \<le> i \<le> j\<close>: a slice never raises and is cut at the end of \<open>s\<close>.\<close>

definition slice :: "'a list \<Rightarrow> nat \<Rightarrow> nat \<Rightarrow> 'a list" where
  "slice s i j = take (j - i) (drop i s)"

text \<open>\<open>p in s\<close> on strings is \<^const>\<open>sublist\<close>: \<open>p\<close> occurs in \<open>s\<close> as a contiguous block.\<close>

section \<open>BIC validation\<close>

text \<open>\<open>EvaluatorOptimizerPattern._validate_bic\<close>, check by check in the source's order.\<close>

definition validate_bic :: "string \<Rightarrow> bool" where
  "validate_bic bic =
     (if bic = [] then False
      else if length bic \<notin> set [8, 11] then False
      else if \<not> isalpha (slice bic 0 4) then False
      else if \<not> isalpha (slice bic 4 6) then False
      else if \<not> isalnum (slice bic 6 8) then False
      else if length bic = 11 \<and> \<not> isalnum (slice bic 8 11) then False
      else True)"

section \<open>Python values\<close>

text \<open>Exceptions carry their message; \<open>str(e)\<close> reads it.\<close>

datatype py_exception =
  KeyError string | TypeError string | ValueError string | TimeoutError string
  | ServiceError string

fun exception_str :: "py_exception \<Rightarrow> string" where
  "exception_str (KeyError s) = s"
| "exception_str (TypeError s) = s"
| "exception_str (ValueError s) = s"
| "exception_str (TimeoutError s) = s"
| "exception_str (ServiceError s) = s"

text \<open>\<open>d.get(key, default)\<close> on a key that may be absent.\<close>

fun dict_get :: "'a \<Rightarrow> 'a option \<Rightarrow> 'a" where
  "dict_get dflt None = dflt"
| "dict_get dflt (Some v) = v"

text \<open>
  Python floats are modelled as exact rationals: a decimal literal such as \<open>0.4\<close> is the
  rational 2/5, and binary64 rounding, infinities and NaN are outside the model.

  \<open>float(s)\<close> is modelled on the strings the amount agent passes to it, which hold digits
  and dots only: an optional run of digits, optionally a dot and a second run of digits,
  with at least one digit overall; anything else raises \<open>ValueError\<close>.
\<close>

definition digits_value :: "string \<Rightarrow> nat" where
  "digits_value ds = fold (\<lambda>c n. 10 * n + ((of_char c :: nat) - 48)) ds 0"

definition py_float :: "string \<Rightarrow> py_exception + rat" where
  "py_float s =
     (let ip = takeWhile char_isdigit s; rest = dropWhile char_isdigit s in
      case rest of
        [] \<Rightarrow> (if ip = [] then Inl (ValueError ''could not convert string to float'')
               else Inr (of_nat (digits_value ip)))
      | c # fp \<Rightarrow>
          (if c = CHR ''.'' \<and> list_all char_isdigit fp \<and> (ip \<noteq> [] \<or> fp \<noteq> [])
           then Inr (of_nat (digits_value (ip @ fp)) / 10 ^ length fp)
           else Inl (ValueError ''could not convert string to float'')))"

text \<open>\<open>x % y\<close> on floats, for \<open>y > 0\<close>.\<close>

definition py_mod :: "rat \<Rightarrow> rat \<Rightarrow> rat" where
  "py_mod x y = x - y * of_int \<lfloor>x / y\<rfloor>"

text \<open>\<open>round(x, ndigits)\<close>: to the nearest multiple of \<open>10 ** -ndigits\<close>, a tie going to
  the even neighbour.\<close>

definition round_half_even :: "rat \<Rightarrow> int" where
  "round_half_even x =
     (let f = \<lfloor>x\<rfloor>; d = x - of_int f in
      if d < 1 / 2 then f else if 1 / 2 < d then f + 1 else if even f then f else f + 1)"

definition py_round :: "rat \<Rightarrow> nat \<Rightarrow> rat" where
  "py_round x ndigits = of_int (round_half_even (x * 10 ^ ndigits)) / 10 ^ ndigits"

text \<open>\<open>s.split()\<close>: the maximal runs of non-whitespace characters, in order.\<close>

fun split_from :: "string \<Rightarrow> string \<Rightarrow> string list" where
  "split_from cur [] = (if cur = [] then [] else [cur])"
| "split_from cur (c # cs) =
     (if char_isspace c then (if cur = [] then split_from [] cs else cur # split_from [] cs)
      else split_from (cur @ [c]) cs)"

definition split :: "string \<Rightarrow> string list" where
  "split s = split_from [] s"

section \<open>Data model\<close>

text \<open>
  The dictionaries of the source have fixed string keys, so each is a record with one
  optional field per key: \<open>None\<close> is an absent key. The values are strings, as in the
  data model, except \<open>amount\<close>, which the source itself tests with
  \<open>isinstance(message["amount"], str)\<close>: it is a string or a JSON number.

  Two keys occur in both dictionaries: the \<open>message_id\<close> of an agent result is the field
  \<open>result_message_id\<close>, and the \<open>fraud_reasons\<close> of a message is the field
  \<open>message_fraud_reasons\<close>.
\<close>

record agent_result =
  agent :: "string option"
  risk_score :: "rat option"
  fraud_reasons :: "string list option"
  result_message_id :: "string option"
  error :: "string option"

datatype amount_value = AmountStr string | AmountNum rat

record message =
  message_id :: "string option"
  message_type :: "string option"
  reference :: "string option"
  amount :: "amount_value option"
  sender_bic :: "string option"
  receiver_bic :: "string option"
  remittance_info :: "string option"
  validation_status :: "string option"
  validation_errors :: "string list option"
  fraud_analysis :: "agent_result list option"
  fraud_status :: "string option"
  fraud_score :: "rat option"
  message_fraud_reasons :: "string list option"

definition empty_message :: message where
  "empty_message =
     \<lparr>message_id = None, message_type = None, reference = None, amount = None,
      sender_bic = None, receiver_bic = None, remittance_info = None,
      validation_status = None, validation_errors = None, fraud_analysis = None,
      fraud_status = None, fraud_score = None, message_fraud_reasons = None\<rparr>"

record aggregate =
  is_fraudulent :: bool
  confidence :: rat
  total_risk_score :: rat
  aggregated_reasons :: "string list"

section \<open>Fraud scoring agents\<close>

text \<open>The pair of statements \<open>risk_score += w; fraud_reasons.append(reason)\<close> on the
  two local variables of an \<open>analyze\<close> method.\<close>

definition add_risk :: "rat \<Rightarrow> string \<Rightarrow> rat \<times> string list \<Rightarrow> rat \<times> string list" where
  "add_risk w reason st = (fst st + w, snd st @ [reason])"

text \<open>The dictionary every \<open>analyze\<close> returns.\<close>

definition make_result :: "string \<Rightarrow> rat \<times> string list \<Rightarrow> agent_result" where
  "make_result name st =
     \<lparr>agent = Some name, risk_score = Some (min (fst st) 1), fraud_reasons = Some (snd st),
      result_message_id = None, error = None\<rparr>"

subsection \<open>Amount agent\<close>

text \<open>
  \<open>FraudAmountDetectionAgent.analyze\<close>. The rendering of a float inside an f-string is
  the parameter \<open>float_str\<close>. Only \<open>float(...)\<close> and the iteration over a value that
  is not a string can raise, both before any rule has fired, so the handler of
  \<open>except (ValueError, TypeError)\<close> is reached with the initial score and reasons.
\<close>

definition amount_rules :: "(rat \<Rightarrow> string) \<Rightarrow> rat \<Rightarrow> rat \<times> string list" where
  "amount_rules float_str amt =
     (let st = (0, []);
          st = (if amt > 10000
                then add_risk 0.3 (''High amount transaction: '' @ float_str amt) st else st);
          st = (if py_mod amt 1000 = 0 \<and> amt > 0
                then add_risk 0.2 (''Suspiciously round amount: '' @ float_str amt) st else st);
          st = (if amt > 100000 \<and> py_mod amt 1 \<noteq> 0
                then add_risk 0.1 ''Large amount with unusual decimal precision'' st else st)
      in st)"

definition parse_amount :: "message \<Rightarrow> py_exception + rat" where
  "parse_amount message =
     (case dict_get (AmountStr ''0'') (amount message) of
        AmountNum x \<Rightarrow> Inl (TypeError ''object is not iterable'')
      | AmountStr amount_str \<Rightarrow>
          py_float (filter (\<lambda>c. char_isdigit c \<or> c = CHR ''.'') amount_str))"

definition FraudAmountDetectionAgent_analyze ::
    "(rat \<Rightarrow> string) \<Rightarrow> message \<Rightarrow> py_exception + agent_result" where
  "FraudAmountDetectionAgent_analyze float_str message =
     (case parse_amount message of
        Inr amt \<Rightarrow> Inr (make_result ''FraudAmountDetectionAgent'' (amount_rules float_str amt))
      | Inl (ValueError e) \<Rightarrow> Inr (make_result ''FraudAmountDetectionAgent'' (0, []))
      | Inl (TypeError e) \<Rightarrow> Inr (make_result ''FraudAmountDetectionAgent'' (0, []))
      | Inl e \<Rightarrow> Inl e)"

subsection \<open>Pattern agent\<close>

definition high_risk_patterns :: "string list" where
  "high_risk_patterns = [''TEST'', ''FAKE'', ''DEMO'', ''999'', ''000000'']"

definition suspicious_keywords :: "string list" where
  "suspicious_keywords = [''urgent'', ''immediately'', ''secret'', ''confidential'']"

text \<open>The bodies of the two \<open>for\<close> loops of \<open>FraudPatternDetectionAgent.analyze\<close>.\<close>

definition pattern_step ::
    "string \<Rightarrow> string \<Rightarrow> string \<Rightarrow> rat \<times> string list \<Rightarrow> rat \<times> string list" where
  "pattern_step sender receiver pattern st =
     (if sublist pattern (upper sender) \<or> sublist pattern (upper receiver)
      then add_risk 0.4 (''Test/fake pattern detected in BIC: '' @ pattern) st else st)"

definition keyword_step :: "string \<Rightarrow> string \<Rightarrow> rat \<times> string list \<Rightarrow> rat \<times> string list" where
  "keyword_step remittance keyword st =
     (if sublist keyword remittance
      then add_risk 0.2 (''Suspicious keyword in remittance: '' @ keyword) st else st)"

definition FraudPatternDetectionAgent_analyze :: "message \<Rightarrow> agent_result" where
  "FraudPatternDetectionAgent_analyze message =
     (let st = (0, []);
          sender = dict_get [] (sender_bic message);
          receiver = dict_get [] (receiver_bic message);
          st = fold (pattern_step sender receiver) high_risk_patterns st;
          st = (if sender \<noteq> [] \<and> sender = receiver
                then add_risk 0.5 ''Same sender and receiver BIC'' st else st);
          remittance = lower (dict_get [] (remittance_info message));
          st = fold (keyword_step remittance) suspicious_keywords st
      in make_result ''FraudPatternDetectionAgent'' st)"

subsection \<open>Geographic risk agent\<close>

definition HIGH_RISK_COUNTRIES :: "string set" where
  "HIGH_RISK_COUNTRIES = {''IR'', ''KP'', ''SY'', ''AF''}"

text \<open>\<open>GeographicRiskAgent.analyze\<close>. On strings the two slices cannot raise, so the
  handler \<open>except Exception: pass\<close> is never entered.\<close>

definition GeographicRiskAgent_analyze :: "message \<Rightarrow> agent_result" where
  "GeographicRiskAgent_analyze message =
     (let st = (0, []);
          sender = dict_get [] (sender_bic message);
          receiver = dict_get [] (receiver_bic message);
          sender_country = slice sender 4 6;
          receiver_country = slice receiver 4 6;
          st = (if sender_country \<in> HIGH_RISK_COUNTRIES
                then add_risk 0.4 (''High-risk sender country: '' @ sender_country) st else st);
          st = (if receiver_country \<in> HIGH_RISK_COUNTRIES
                then add_risk 0.4 (''High-risk receiver country: '' @ receiver_country) st
                else st)
      in make_result ''GeographicRiskAgent'' st)"

section \<open>Fraud aggregator\<close>

definition threshold :: rat where
  "threshold = 0.5"

text \<open>The nested loop of \<open>FraudAggAgent.aggregate_results\<close> that fills
  \<open>all_reasons\<close>.\<close>

definition append_reasons :: "agent_result \<Rightarrow> string list \<Rightarrow> string list" where
  "append_reasons result all_reasons =
     (let agent_name = dict_get ''Unknown'' (agent result);
          reasons = dict_get [] (fraud_reasons result)
      in fold (\<lambda>reason acc. acc @ [''['' @ agent_name @ ''] '' @ reason]) reasons all_reasons)"

definition aggregate_results :: "agent_result list \<Rightarrow> aggregate" where
  "aggregate_results fraud_results =
     (if fraud_results = []
      then \<lparr>is_fraudulent = False, confidence = 0, total_risk_score = 0,
            aggregated_reasons = []\<rparr>
      else
        (let total_risk = sum_list (map (\<lambda>r. dict_get 0 (risk_score r)) fraud_results);
             avg_risk = total_risk / of_nat (length fraud_results);
             all_reasons = fold append_reasons fraud_results []
         in \<lparr>is_fraudulent = (avg_risk \<ge> threshold),
              confidence = py_round (avg_risk * 100) 2,
              total_risk_score = py_round avg_risk 3,
              aggregated_reasons = all_reasons\<rparr>))"

section \<open>Bounded correction loop\<close>

text \<open>
  The language-model service behind \<open>EvaluatorAgent.evaluate\<close> and
  \<open>SwiftCorrectionAgent.respond\<close> is not part of the sources: it is a pair of
  parameters. Each call takes the service's state \<open>'s\<close> and the request, and either
  raises or returns the decoded JSON value together with the next state, so that an answer
  may depend on everything asked before. An evaluation is a dictionary with the optional
  keys \<open>is_valid\<close> and \<open>errors\<close>, or some other value; a correction is a dictionary of
  message keys (a \<^typ>\<open>message\<close> whose absent fields are the keys it does not hold),
  or some other value.
\<close>

datatype evaluation = EvalDict "bool option" "string list option" | EvalOther

datatype correction = CorrDict message | CorrOther

type_synonym 's evaluator = "'s \<Rightarrow> message \<Rightarrow> (py_exception + evaluation) \<times> 's"

type_synonym 's corrector =
  "'s \<Rightarrow> message \<Rightarrow> string list \<Rightarrow> (py_exception + correction) \<times> 's"

text \<open>The state threaded through the loop: the service's state and, as a record of what
  happened, the number of calls made to each oracle so far.\<close>

record 's world =
  service :: 's
  eval_calls :: nat
  corr_calls :: nat

definition MAX_ITERATIONS :: nat where
  "MAX_ITERATIONS = 3"

text \<open>\<open>evaluate_message\<close>: \<open>result["is_valid"]\<close> raises on a value that is not a
  dictionary and on a dictionary without the key; \<open>result.get("errors", [])\<close> does
  not.\<close>

definition evaluate_message ::
    "'s evaluator \<Rightarrow> 's world \<Rightarrow> message \<Rightarrow> (py_exception + bool \<times> string list) \<times> 's world" where
  "evaluate_message ev w message =
     (let (result, s) = ev (service w) message;
          w = w\<lparr>service := s, eval_calls := eval_calls w + 1\<rparr>
      in (case result of
            Inl e \<Rightarrow> (Inl e, w)
          | Inr EvalOther \<Rightarrow> (Inl (TypeError ''is_valid''), w)
          | Inr (EvalDict None errors) \<Rightarrow> (Inl (KeyError ''is_valid''), w)
          | Inr (EvalDict (Some is_valid) errors) \<Rightarrow> (Inr (is_valid, dict_get [] errors), w)))"

text \<open>\<open>SwiftCorrectionAgent.respond\<close>: an exception of the service is caught and the
  original message is returned in place of a correction.\<close>

definition respond ::
    "'s corrector \<Rightarrow> 's world \<Rightarrow> message \<Rightarrow> string list \<Rightarrow> (py_exception + correction) \<times> 's world" where
  "respond co w message errors =
     (let (corrected, s) = co (service w) message errors;
          w = w\<lparr>service := s, corr_calls := corr_calls w + 1\<rparr>
      in (case corrected of
            Inl e \<Rightarrow> (Inr (CorrDict message), w)
          | Inr c \<Rightarrow> (Inr c, w)))"

text \<open>\<open>message.update(corrected_message)\<close>: a key of the correction overwrites, an
  absent key leaves the message's value.\<close>

fun override :: "'a option \<Rightarrow> 'a option \<Rightarrow> 'a option" where
  "override old None = old"
| "override old (Some v) = Some v"

definition dict_update :: "message \<Rightarrow> message \<Rightarrow> message" where
  "dict_update m c =
     \<lparr>message_id = override (message_id m) (message_id c),
      message_type = override (message_type m) (message_type c),
      reference = override (reference m) (reference c),
      amount = override (amount m) (amount c),
      sender_bic = override (sender_bic m) (sender_bic c),
      receiver_bic = override (receiver_bic m) (receiver_bic c),
      remittance_info = override (remittance_info m) (remittance_info c),
      validation_status = override (validation_status m) (validation_status c),
      validation_errors = override (validation_errors m) (validation_errors c),
      fraud_analysis = override (fraud_analysis m) (fraud_analysis c),
      fraud_status = override (fraud_status m) (fraud_status c),
      fraud_score = override (fraud_score m) (fraud_score c),
      message_fraud_reasons = override (message_fraud_reasons m) (message_fraud_reasons c)\<rparr>"

text \<open>The local repair at the end of \<open>optimize_message\<close>: a string amount of exactly
  one whitespace-separated part gets the currency \<open>USD\<close>.\<close>

definition repair_amount :: "message \<Rightarrow> message" where
  "repair_amount message =
     (case amount message of
        Some (AmountStr a) \<Rightarrow>
          (let parts = split a in
           if length parts = 1 then message\<lparr>amount := Some (AmountStr (hd parts @ '' USD''))\<rparr>
           else message)
      | Some (AmountNum x) \<Rightarrow> message
      | None \<Rightarrow> message)"

definition optimize_message ::
    "'s corrector \<Rightarrow> 's world \<Rightarrow> message \<Rightarrow> string list \<Rightarrow> message \<times> 's world" where
  "optimize_message co w message errors =
     (let (corrected_message, w) = respond co w message errors;
          message = (case corrected_message of
                       Inr (CorrDict c) \<Rightarrow> dict_update message c
                     | Inr CorrOther \<Rightarrow> message
                     | Inl e \<Rightarrow> message)
      in (repair_amount message, w))"

text \<open>
  The loop \<open>for iteration in range(self.MAX_ITERATIONS)\<close> over one message, as a
  recursion over the list of iteration numbers still to run. An exception of
  \<open>evaluate_message\<close> is not handled and leaves the loop.
\<close>

fun correction_loop ::
    "'s evaluator \<Rightarrow> 's corrector \<Rightarrow> nat list \<Rightarrow> 's world \<Rightarrow> message \<Rightarrow>
       (py_exception + message) \<times> 's world" where
  "correction_loop ev co [] w message = (Inr message, w)"
| "correction_loop ev co (iteration # rest) w message =
     (case evaluate_message ev w message of
        (Inl e, w1) \<Rightarrow> (Inl e, w1)
      | (Inr (is_valid, errors), w1) \<Rightarrow>
          if is_valid
          then (Inr (message\<lparr>validation_status := Some ''VALID'',
                             validation_errors := Some []\<rparr>), w1)
          else if iteration < MAX_ITERATIONS - 1
          then (case optimize_message co w1 message errors of
                  (message', w2) \<Rightarrow> correction_loop ev co rest w2 message')
          else correction_loop ev co rest w1
                 (message\<lparr>validation_status := Some ''INVALID'',
                          validation_errors := Some errors\<rparr>))"

definition process_message_loop ::
    "'s evaluator \<Rightarrow> 's corrector \<Rightarrow> 's world \<Rightarrow> message \<Rightarrow> (py_exception + message) \<times> 's world" where
  "process_message_loop ev co w message = correction_loop ev co [0..<MAX_ITERATIONS] w message"

text \<open>\<open>process_with_evaluator_optimizer\<close>: the outer loop over the batch, with
  \<open>optimized_messages\<close> as the accumulator.\<close>

fun process_messages ::
    "'s evaluator \<Rightarrow> 's corrector \<Rightarrow> 's world \<Rightarrow> message list \<Rightarrow> message list \<Rightarrow>
       (py_exception + message list) \<times> 's world" where
  "process_messages ev co w [] optimized_messages = (Inr optimized_messages, w)"
| "process_messages ev co w (message # messages) optimized_messages =
     (case process_message_loop ev co w message of
        (Inl e, w1) \<Rightarrow> (Inl e, w1)
      | (Inr message', w1) \<Rightarrow>
          process_messages ev co w1 messages (optimized_messages @ [message']))"

definition process_with_evaluator_optimizer ::
    "'s evaluator \<Rightarrow> 's corrector \<Rightarrow> 's world \<Rightarrow> message list \<Rightarrow>
       (py_exception + message list) \<times> 's world" where
  "process_with_evaluator_optimizer ev co w messages = process_messages ev co w messages []"

text \<open>Stub oracles: a service that is not available, an evaluator that accepts every
  message and one that rejects every message with a fixed error.\<close>

definition unavailable_corrector :: "unit corrector" where
  "unavailable_corrector s message errors = (Inl (ServiceError ''unavailable''), s)"

definition accepting_evaluator :: "unit evaluator" where
  "accepting_evaluator s message = (Inr (EvalDict (Some True) (Some [])), s)"

definition rejecting_evaluator :: "unit evaluator" where
  "rejecting_evaluator s message = (Inr (EvalDict (Some False) (Some [''invalid''])), s)"

definition initial_world :: "unit world" where
  "initial_world = \<lparr>service = (), eval_calls = 0, corr_calls = 0\<rparr>"

text \<open>An amount that is a single part, such as \<open>15000.00\<close>, has no currency token.\<close>

definition bare_amount :: "amount_value option \<Rightarrow> bool" where
  "bare_amount a = (case a of Some (AmountStr s) \<Rightarrow> length (split s) = 1 | _ \<Rightarrow> False)"

section \<open>Concurrent fan-out scheduler\<close>

text \<open>A scoring agent: its class name and its \<open>analyze\<close> method, which may raise.\<close>

record scoring_agent =
  class_name :: string
  analyze :: "message \<Rightarrow> py_exception + agent_result"

definition list_of_agents :: "(rat \<Rightarrow> string) \<Rightarrow> scoring_agent list" where
  "list_of_agents float_str =
     [\<lparr>class_name = ''FraudAmountDetectionAgent'',
       analyze = FraudAmountDetectionAgent_analyze float_str\<rparr>,
      \<lparr>class_name = ''FraudPatternDetectionAgent'',
       analyze = (\<lambda>message. Inr (FraudPatternDetectionAgent_analyze message))\<rparr>,
      \<lparr>class_name = ''GeographicRiskAgent'',
       analyze = (\<lambda>message. Inr (GeographicRiskAgent_analyze message))\<rparr>]"

text \<open>\<open>ParallelizationPattern._process_message\<close>: the \<open>try\<close> block, whose value is
  the result or the exception raised in it, and the handler of \<open>except Exception\<close>.\<close>

definition process_message :: "message \<Rightarrow> scoring_agent \<Rightarrow> py_exception + agent_result" where
  "process_message message ag =
     (case analyze ag message of
        Inr result \<Rightarrow>
          Inr (result\<lparr>result_message_id := Some (dict_get ''unknown'' (message_id message))\<rparr>)
      | Inl e \<Rightarrow>
          Inr \<lparr>agent = Some (class_name ag), risk_score = Some 0, fraud_reasons = Some [],
               result_message_id = None, error = Some (exception_str e)\<rparr>)"

text \<open>
  A future holds what its task returns or raises, and whether the task is done when
  \<open>future.result(timeout=5)\<close> stops waiting for it; that is decided by the run, the
  parameter \<open>timely\<close> of the scheduler, from the positions of the message and of the
  agent.
\<close>

record future =
  outcome :: "py_exception + agent_result"
  done_in_time :: bool

definition future_result :: "future \<Rightarrow> py_exception + agent_result" where
  "future_result f = (if done_in_time f then outcome f else Inl (TimeoutError []))"

text \<open>\<open>d[k] = v\<close> on a dictionary in insertion order: a key that is present keeps its
  place and takes the new value.\<close>

fun dict_set :: "('k \<times> 'v) list \<Rightarrow> 'k \<Rightarrow> 'v \<Rightarrow> ('k \<times> 'v) list" where
  "dict_set [] k v = [(k, v)]"
| "dict_set ((k', v') # d) k v =
     (if k' = k then (k, v) # d else (k', v') # dict_set d k v)"

definition submit_agents ::
    "scoring_agent list \<Rightarrow> (nat \<Rightarrow> nat \<Rightarrow> bool) \<Rightarrow> nat \<Rightarrow> message \<Rightarrow> future list" where
  "submit_agents agents timely j message =
     map (\<lambda>(k, ag). \<lparr>outcome = process_message message ag, done_in_time = timely j k\<rparr>)
       (enumerate 0 agents)"

text \<open>The first loop of \<open>process_batch_parallel\<close>; \<open>message['message_id']\<close> raises
  \<open>KeyError\<close> on a message without the key.\<close>

fun submit_tasks ::
    "scoring_agent list \<Rightarrow> (nat \<Rightarrow> nat \<Rightarrow> bool) \<Rightarrow> nat \<Rightarrow> message list \<Rightarrow>
       (string \<times> message \<times> future list) list \<Rightarrow>
       py_exception + (string \<times> message \<times> future list) list" where
  "submit_tasks agents timely j [] future_to_msg = Inr future_to_msg"
| "submit_tasks agents timely j (message # messages) future_to_msg =
     (let agent_futures = submit_agents agents timely j message in
      case message_id message of
        None \<Rightarrow> Inl (KeyError ''message_id'')
      | Some msg_id \<Rightarrow>
          submit_tasks agents timely (Suc j) messages
            (dict_set future_to_msg msg_id (message, agent_futures)))"

text \<open>The inner loop of the collection: a future whose \<open>result\<close> raises adds
  nothing.\<close>

definition collect_results :: "future list \<Rightarrow> agent_result list" where
  "collect_results futures =
     fold (\<lambda>f agent_results.
             case future_result f of
               Inr result \<Rightarrow> agent_results @ [result]
             | Inl e \<Rightarrow> agent_results)
       futures []"

definition mark_message :: "message \<Rightarrow> agent_result list \<Rightarrow> message" where
  "mark_message message agent_results =
     (let aggregated = aggregate_results agent_results in
      message\<lparr>fraud_analysis := Some agent_results,
              fraud_status := Some (if is_fraudulent aggregated then ''FRAUDULENT'' else ''CLEAN''),
              fraud_score := Some (confidence aggregated),
              message_fraud_reasons := Some (aggregated_reasons aggregated)\<rparr>)"

definition collect_entry :: "string \<times> message \<times> future list \<Rightarrow> message" where
  "collect_entry entry = (case entry of (msg_id, message, futures) \<Rightarrow>
     mark_message message (collect_results futures))"

definition process_batch_parallel ::
    "scoring_agent list \<Rightarrow> (nat \<Rightarrow> nat \<Rightarrow> bool) \<Rightarrow> message list \<Rightarrow> py_exception + message list" where
  "process_batch_parallel agents timely messages =
     (case submit_tasks agents timely 0 messages [] of
        Inl e \<Rightarrow> Inl e
      | Inr future_to_msg \<Rightarrow>
          Inr (fold (\<lambda>entry processed_messages. processed_messages @ [collect_entry entry])
                 future_to_msg []))"

text \<open>The verdict the scheduler writes on the message at position \<open>j\<close> of the batch.\<close>

definition verdict ::
    "scoring_agent list \<Rightarrow> (nat \<Rightarrow> nat \<Rightarrow> bool) \<Rightarrow> nat \<Rightarrow> message \<Rightarrow> message" where
  "verdict agents timely j message =
     mark_message message (collect_results (submit_agents agents timely j message))"

section \<open>Properties\<close>

lemma list_all_slice:
  assumes "j \<le> length s"
  shows "list_all P (slice s i j) \<longleftrightarrow> (\<forall>k. i \<le> k \<and> k < j \<longrightarrow> P (s ! k))"
proof
  assume h: "list_all P (slice s i j)"
  show "\<forall>k. i \<le> k \<and> k < j \<longrightarrow> P (s ! k)"
  proof (intro allI impI)
    fix k assume k: "i \<le> k \<and> k < j"
    then have "k - i < length (slice s i j)"
      using assms by (auto simp: slice_def)
    then have "P (slice s i j ! (k - i))"
      using h by (simp add: list_all_length)
    moreover have "slice s i j ! (k - i) = s ! k"
      using k assms by (auto simp: slice_def)
    ultimately show "P (s ! k)"
      by simp
  qed
next
  assume h: "\<forall>k. i \<le> k \<and> k < j \<longrightarrow> P (s ! k)"
  show "list_all P (slice s i j)"
    using assms h by (auto simp: list_all_length slice_def)
qed

lemma slice_nonempty: "i < j \<Longrightarrow> j \<le> length s \<Longrightarrow> slice s i j \<noteq> []"
  by (simp add: slice_def)

text \<open>
  C1. \<open>_validate_bic\<close> is a total boolean function, and it returns true exactly when the
  length is 8 or 11, the characters at positions 0 to 3 and 4 to 5 are alphabetic, those at
  positions 6 to 7 are alphanumeric and, for length 11, those at positions 8 to 10 are
  alphanumeric. The empty string and every string shorter than 8 are rejected.
\<close>

theorem validate_bic_iff:
  "validate_bic bic \<longleftrightarrow>
     (length bic = 8 \<or> length bic = 11) \<and>
     (\<forall>k. k < 4 \<longrightarrow> char_isalpha (bic ! k)) \<and>
     (\<forall>k. 4 \<le> k \<and> k < 6 \<longrightarrow> char_isalpha (bic ! k)) \<and>
     (\<forall>k. 6 \<le> k \<and> k < 8 \<longrightarrow> char_isalnum (bic ! k)) \<and>
     (length bic = 11 \<longrightarrow> (\<forall>k. 8 \<le> k \<and> k < 11 \<longrightarrow> char_isalnum (bic ! k)))"
proof (cases "length bic = 8 \<or> length bic = 11")
  case False
  then show ?thesis by (auto simp: validate_bic_def)
next
  case True
  then have ne: "bic \<noteq> []" by auto
  have a: "isalpha (slice bic 0 4) \<longleftrightarrow> (\<forall>k. k < 4 \<longrightarrow> char_isalpha (bic ! k))"
    using True by (auto simp: isalpha_def slice_nonempty list_all_slice)
  have b: "isalpha (slice bic 4 6) \<longleftrightarrow> (\<forall>k. 4 \<le> k \<and> k < 6 \<longrightarrow> char_isalpha (bic ! k))"
    using True by (auto simp: isalpha_def slice_nonempty list_all_slice)
  have c: "isalnum (slice bic 6 8) \<longleftrightarrow> (\<forall>k. 6 \<le> k \<and> k < 8 \<longrightarrow> char_isalnum (bic ! k))"
    using True by (auto simp: isalnum_def slice_nonempty list_all_slice)
  have d: "length bic = 11 \<Longrightarrow>
      isalnum (slice bic 8 11) \<longleftrightarrow> (\<forall>k. 8 \<le> k \<and> k < 11 \<longrightarrow> char_isalnum (bic ! k))"
    by (auto simp: isalnum_def slice_nonempty list_all_slice)
  show ?thesis
    using True ne a b c d by (auto simp: validate_bic_def)
qed

theorem validate_bic_iff_witness: "validate_bic ''CHASUS33XXX''"
proof (rule iffD2[OF validate_bic_iff], intro conjI allI impI)
  show "length ''CHASUS33XXX'' = 8 \<or> length ''CHASUS33XXX'' = 11" by simp
next
  fix k :: nat assume "k < 4"
  then consider "k = 0" | "k = 1" | "k = 2" | "k = 3" by linarith
  then show "char_isalpha (''CHASUS33XXX'' ! k)"
    by cases (simp_all add: char_isalpha_def char_isupper_def)
next
  fix k :: nat assume "4 \<le> k \<and> k < 6"
  then consider "k = 4" | "k = 5" by linarith
  then show "char_isalpha (''CHASUS33XXX'' ! k)"
    by cases (simp_all add: char_isalpha_def char_isupper_def)
next
  fix k :: nat assume "6 \<le> k \<and> k < 8"
  then consider "k = 6" | "k = 7" by linarith
  then show "char_isalnum (''CHASUS33XXX'' ! k)"
    by cases (simp_all add: char_isalnum_def char_isdigit_def)
next
  fix k :: nat assume "8 \<le> k \<and> k < 11"
  then consider "k = 8" | "k = 9" | "k = 10" by linarith
  then show "char_isalnum (''CHASUS33XXX'' ! k)"
    by cases (simp_all add: char_isalnum_def char_isalpha_def char_isupper_def)
qed

lemma fold_snoc_map: "fold (\<lambda>x acc. acc @ [f x]) xs acc = acc @ map f xs"
  by (induction xs arbitrary: acc) auto

lemma append_reasons_eq:
  "append_reasons r acc =
     acc @ map (\<lambda>reason. ''['' @ dict_get ''Unknown'' (agent r) @ ''] '' @ reason)
             (dict_get [] (fraud_reasons r))"
  by (simp add: append_reasons_def fold_snoc_map)

lemma fold_append_reasons:
  "fold append_reasons rs acc =
     acc @ concat (map (\<lambda>r. map (\<lambda>reason. ''['' @ dict_get ''Unknown'' (agent r) @ ''] '' @ reason)
                               (dict_get [] (fraud_reasons r))) rs)"
  by (induction rs arbitrary: acc) (simp_all add: append_reasons_eq)

text \<open>
C3. \<open>aggregate_results\<close> on the empty list returns the verdict with
  \<open>is_fraudulent\<close> false, confidence 0, total risk score 0 and no reasons. On a
  non-empty list, with \<open>avg\<close> the sum of the \<open>risk_score\<close> fields divided by the length
  of the list, it returns \<open>is_fraudulent = (avg \<ge> 0.5)\<close>, \<open>confidence = round(avg * 100, 2)\<close>,
  \<open>total_risk_score = round(avg, 3)\<close> and, as \<open>aggregated_reasons\<close>, every reason of every
  agent in agent-then-reason order, each prefixed with the agent's name in brackets and a
  space. (A result without the key \<open>risk_score\<close>, \<open>agent\<close> or \<open>fraud_reasons\<close> counts
  as 0, \<open>Unknown\<close> and no reasons, the defaults of the source's \<open>get\<close> calls.)
\<close>

theorem aggregate_results_spec:
  "aggregate_results [] =
     \<lparr>is_fraudulent = False, confidence = 0, total_risk_score = 0, aggregated_reasons = []\<rparr> \<and>
   (rs \<noteq> [] \<longrightarrow>
      aggregate_results rs =
        \<lparr>is_fraudulent = (sum_list (map (\<lambda>r. dict_get 0 (risk_score r)) rs) / of_nat (length rs) \<ge> 0.5),
         confidence = py_round (sum_list (map (\<lambda>r. dict_get 0 (risk_score r)) rs) / of_nat (length rs) * 100) 2,
         total_risk_score = py_round (sum_list (map (\<lambda>r. dict_get 0 (risk_score r)) rs) / of_nat (length rs)) 3,
         aggregated_reasons =
           concat (map (\<lambda>r. map (\<lambda>reason. ''['' @ dict_get ''Unknown'' (agent r) @ ''] '' @ reason)
                              (dict_get [] (fraud_reasons r))) rs)\<rparr>)"
  by (simp add: aggregate_results_def Let_def threshold_def fold_append_reasons)

theorem aggregate_results_spec_witness:
  "aggregate_results
     [make_result ''A'' (0.3, [''r1'', ''r2'']), make_result ''B'' (0.6, []),
      make_result ''C'' (0.9, [''r3''])] =
   \<lparr>is_fraudulent = True, confidence = 60, total_risk_score = 0.6,
    aggregated_reasons = [''[A] r1'', ''[A] r2'', ''[C] r3'']\<rparr>"
  using aggregate_results_spec [of "[make_result ''A'' (0.3, [''r1'', ''r2'']),
      make_result ''B'' (0.6, []), make_result ''C'' (0.9, [''r3''])]"]
  by (simp add: make_result_def py_round_def round_half_even_def Let_def)

lemma fold_pattern_step:
  "fold (pattern_step sender receiver) ps st =
     (fst st + 0.4 * of_nat (length (filter (\<lambda>p. sublist p (upper sender) \<or> sublist p (upper receiver)) ps)),
      snd st @ map (\<lambda>p. ''Test/fake pattern detected in BIC: '' @ p)
                 (filter (\<lambda>p. sublist p (upper sender) \<or> sublist p (upper receiver)) ps))"
  by (induction ps arbitrary: st) (simp_all add: pattern_step_def add_risk_def algebra_simps)

lemma fold_keyword_step:
  "fold (keyword_step remittance) ks st =
     (fst st + 0.2 * of_nat (length (filter (\<lambda>k. sublist k remittance) ks)),
      snd st @ map (\<lambda>k. ''Suspicious keyword in remittance: '' @ k)
                 (filter (\<lambda>k. sublist k remittance) ks))"
  by (induction ks arbitrary: st) (simp_all add: keyword_step_def add_risk_def algebra_simps)

text \<open>
  C5. The pattern agent's risk score is \<open>min(1.0, s)\<close>, where \<open>s\<close> adds 0.4 for each
  token of \<open>TEST\<close>, \<open>FAKE\<close>, \<open>DEMO\<close>, \<open>999\<close>, \<open>000000\<close> that occurs in the
  upper-cased sender BIC or in the upper-cased receiver BIC (each token is tested on its
  own, so several matching tokens add several times), adds 0.5 when the sender BIC equals
  the receiver BIC and both are non-empty, and adds 0.2 for each keyword of \<open>urgent\<close>,
  \<open>immediately\<close>, \<open>secret\<close>, \<open>confidential\<close> that occurs in the lower-cased
  remittance text. A message whose sender and receiver BIC are both \<open>CHASUS33XXX\<close> has
  the reason \<open>Same sender and receiver BIC\<close> and a risk score of at least 0.5.
\<close>

theorem pattern_agent_score:
  "risk_score (FraudPatternDetectionAgent_analyze m) =
     Some (min 1
       (0.4 * of_nat (length (filter
            (\<lambda>p. sublist p (upper (dict_get [] (sender_bic m))) \<or>
                 sublist p (upper (dict_get [] (receiver_bic m))))
            high_risk_patterns))
        + (if dict_get [] (sender_bic m) = dict_get [] (receiver_bic m) \<and>
              dict_get [] (sender_bic m) \<noteq> [] \<and> dict_get [] (receiver_bic m) \<noteq> []
           then 0.5 else 0)
        + 0.2 * of_nat (length (filter
            (\<lambda>k. sublist k (lower (dict_get [] (remittance_info m))))
            suspicious_keywords))))
   \<and> (sender_bic m = Some ''CHASUS33XXX'' \<and> receiver_bic m = Some ''CHASUS33XXX'' \<longrightarrow>
        ''Same sender and receiver BIC''
          \<in> set (dict_get [] (fraud_reasons (FraudPatternDetectionAgent_analyze m))) \<and>
        dict_get 0 (risk_score (FraudPatternDetectionAgent_analyze m)) \<ge> 0.5)"
proof -
  let ?s = "dict_get [] (sender_bic m)" and ?r = "dict_get [] (receiver_bic m)"
  let ?np = "length (filter (\<lambda>p. sublist p (upper ?s) \<or> sublist p (upper ?r)) high_risk_patterns)"
  let ?nk = "length (filter (\<lambda>k. sublist k (lower (dict_get [] (remittance_info m)))) suspicious_keywords)"
  have score: "risk_score (FraudPatternDetectionAgent_analyze m) =
      Some (min 1 (0.4 * of_nat ?np + (if ?s = ?r \<and> ?s \<noteq> [] \<and> ?r \<noteq> [] then 0.5 else 0)
                   + 0.2 * of_nat ?nk))"
    by (auto simp: FraudPatternDetectionAgent_analyze_def Let_def make_result_def
        fold_pattern_step fold_keyword_step add_risk_def min.commute)
  have same: "''Same sender and receiver BIC''
          \<in> set (dict_get [] (fraud_reasons (FraudPatternDetectionAgent_analyze m)))"
    if "sender_bic m = Some ''CHASUS33XXX''" "receiver_bic m = Some ''CHASUS33XXX''"
    using that
    by (simp add: FraudPatternDetectionAgent_analyze_def Let_def make_result_def
        fold_pattern_step fold_keyword_step add_risk_def)
  have ge: "dict_get 0 (risk_score (FraudPatternDetectionAgent_analyze m)) \<ge> 0.5"
    if "sender_bic m = Some ''CHASUS33XXX''" "receiver_bic m = Some ''CHASUS33XXX''"
  proof -
    have "(0.5::rat) \<le> 0.4 * of_nat ?np + 0.5 + 0.2 * of_nat ?nk" by simp
    then show ?thesis using that by (simp add: score)
  qed
  show ?thesis
    using score same ge by blast
qed


theorem pattern_agent_score_witness:
  "risk_score (FraudPatternDetectionAgent_analyze
       (empty_message\<lparr>sender_bic := Some ''CHASUS33XXX'', receiver_bic := Some ''CHASUS33XXX''\<rparr>))
     = Some 0.5 \<and>
   ''Same sender and receiver BIC'' \<in> set (dict_get [] (fraud_reasons
      (FraudPatternDetectionAgent_analyze
        (empty_message\<lparr>sender_bic := Some ''CHASUS33XXX'', receiver_bic := Some ''CHASUS33XXX''\<rparr>))))"
proof -
  have u: "upper ''CHASUS33XXX'' = ''CHASUS33XXX''"
    by code_simp
  have np: "filter (\<lambda>p. sublist p ''CHASUS33XXX'') high_risk_patterns = []"
    by code_simp
  have nk: "filter (\<lambda>k. sublist k (lower [])) suspicious_keywords = []"
    by code_simp
  show ?thesis
    using pattern_agent_score [of "empty_message\<lparr>sender_bic := Some ''CHASUS33XXX'',
      receiver_bic := Some ''CHASUS33XXX''\<rparr>"]
    by (simp add: empty_message_def u np nk)
qed

lemma py_mod_zero_iff:
  assumes "0 < y"
  shows "py_mod x y = 0 \<longleftrightarrow> (\<exists>k::int. x = y * of_int k)"
proof
  assume "py_mod x y = 0"
  then have "x = y * of_int \<lfloor>x / y\<rfloor>" by (simp add: py_mod_def)
  then show "\<exists>k::int. x = y * of_int k" ..
next
  assume "\<exists>k::int. x = y * of_int k"
  then obtain k :: int where k: "x = y * of_int k" ..
  then have "x / y = of_int k" using assms by simp
  then show "py_mod x y = 0" using k by (simp add: py_mod_def)
qed

lemma py_mod_one_iff: "py_mod x 1 \<noteq> 0 \<longleftrightarrow> x \<notin> \<int>"
proof -
  have "py_mod x 1 = 0 \<longleftrightarrow> (\<exists>k::int. x = of_int k)"
    using py_mod_zero_iff [of 1 x] by simp
  also have "\<dots> \<longleftrightarrow> x \<in> \<int>" by (auto simp: Ints_def)
  finally show ?thesis by simp
qed

lemma py_float_error: "py_float s = Inl e \<Longrightarrow> \<exists>msg. e = ValueError msg"
  by (auto simp: py_float_def Let_def split: list.splits if_splits)

lemma parse_amount_error:
  "parse_amount m = Inl e \<Longrightarrow> (\<exists>msg. e = ValueError msg) \<or> (\<exists>msg. e = TypeError msg)"
  by (auto simp: parse_amount_def dest: py_float_error split: amount_value.splits)

lemma amount_rules_score:
  "fst (amount_rules float_str a) =
     (if a > 10000 then 0.3 else 0) + (if py_mod a 1000 = 0 \<and> a > 0 then 0.2 else 0)
       + (if a > 100000 \<and> py_mod a 1 \<noteq> 0 then 0.1 else 0)"
  by (auto simp: amount_rules_def Let_def add_risk_def)

text \<open>
C7. The amount agent never raises. It parses the amount after removing every character
  that is neither a digit nor a dot. When the parse gives the amount \<open>a\<close>, the risk score
  is \<open>min(1.0, s)\<close>, where \<open>s\<close> adds 0.3 if \<open>a\<close> exceeds 10,000, adds 0.2 if \<open>a\<close> is a
  positive multiple of 1,000, and adds 0.1 if \<open>a\<close> exceeds 100,000 and is not a whole
  number. When the parse fails, the result has risk 0 and no reasons.
\<close>

theorem amount_agent_score:
  "(\<exists>r. FraudAmountDetectionAgent_analyze float_str m = Inr r) \<and>
   (\<forall>s. amount m = Some (AmountStr s) \<longrightarrow>
      parse_amount m = py_float (filter (\<lambda>c. char_isdigit c \<or> c = CHR ''.'') s)) \<and>
   (\<forall>a. parse_amount m = Inr a \<longrightarrow>
      map_sum id risk_score (FraudAmountDetectionAgent_analyze float_str m) =
        Inr (Some (min 1
          ((if a > 10000 then 0.3 else 0)
           + (if 0 < a \<and> (\<exists>k::int. a = 1000 * of_int k) then 0.2 else 0)
           + (if a > 100000 \<and> a \<notin> \<int> then 0.1 else 0))))) \<and>
   (\<forall>e. parse_amount m = Inl e \<longrightarrow>
      FraudAmountDetectionAgent_analyze float_str m =
        Inr \<lparr>agent = Some ''FraudAmountDetectionAgent'', risk_score = Some 0,
             fraud_reasons = Some [], result_message_id = None, error = None\<rparr>)"
proof (intro conjI allI impI)
  show "\<exists>r. FraudAmountDetectionAgent_analyze float_str m = Inr r"
  proof (cases "parse_amount m")
    case (Inl e)
    then show ?thesis
      using parse_amount_error [OF Inl]
      by (auto simp: FraudAmountDetectionAgent_analyze_def)
  next
    case (Inr a)
    then show ?thesis by (simp add: FraudAmountDetectionAgent_analyze_def)
  qed
next
  fix s assume "amount m = Some (AmountStr s)"
  then show "parse_amount m = py_float (filter (\<lambda>c. char_isdigit c \<or> c = CHR ''.'') s)"
    by (simp add: parse_amount_def)
next
  fix a assume a: "parse_amount m = Inr a"
  have m1000: "py_mod a 1000 = 0 \<longleftrightarrow> (\<exists>k::int. a = 1000 * of_int k)"
    using py_mod_zero_iff [of 1000 a] by simp
  have "fst (amount_rules float_str a) =
      (if a > 10000 then 0.3 else 0)
       + (if 0 < a \<and> (\<exists>k::int. a = 1000 * of_int k) then 0.2 else 0)
       + (if a > 100000 \<and> a \<notin> \<int> then 0.1 else 0)"
    unfolding amount_rules_score m1000 py_mod_one_iff by (simp add: conj_commute)
  then show "map_sum id risk_score (FraudAmountDetectionAgent_analyze float_str m) =
        Inr (Some (min 1
          ((if a > 10000 then 0.3 else 0)
           + (if 0 < a \<and> (\<exists>k::int. a = 1000 * of_int k) then 0.2 else 0)
           + (if a > 100000 \<and> a \<notin> \<int> then 0.1 else 0))))"
    using a by (simp add: FraudAmountDetectionAgent_analyze_def make_result_def min.commute)
next
  fix e assume e: "parse_amount m = Inl e"
  show "FraudAmountDetectionAgent_analyze float_str m =
        Inr \<lparr>agent = Some ''FraudAmountDetectionAgent'', risk_score = Some 0,
             fraud_reasons = Some [], result_message_id = None, error = None\<rparr>"
    using parse_amount_error [OF e] e
    by (auto simp: FraudAmountDetectionAgent_analyze_def make_result_def)
qed


theorem amount_agent_score_witness:
  "map_sum id risk_score
     (FraudAmountDetectionAgent_analyze (\<lambda>x. [])
        (empty_message\<lparr>amount := Some (AmountStr ''15000.00 USD'')\<rparr>)) = Inr (Some 0.5) \<and>
   FraudAmountDetectionAgent_analyze (\<lambda>x. []) (empty_message\<lparr>amount := Some (AmountStr ''USD'')\<rparr>) =
     Inr \<lparr>agent = Some ''FraudAmountDetectionAgent'', risk_score = Some 0,
          fraud_reasons = Some [], result_message_id = None, error = None\<rparr>"
proof -
  have p1: "parse_amount (empty_message\<lparr>amount := Some (AmountStr ''15000.00 USD'')\<rparr>) = Inr 15000"
    by (simp add: parse_amount_def empty_message_def py_float_def char_isdigit_def
        digits_value_def Let_def)
  have k: "\<exists>k::int. (15000::rat) = 1000 * of_int k"
    by (rule exI [of _ 15]) simp
  have p2: "parse_amount (empty_message\<lparr>amount := Some (AmountStr ''USD'')\<rparr>) =
      Inl (ValueError ''could not convert string to float'')"
    by (simp add: parse_amount_def empty_message_def py_float_def char_isdigit_def Let_def)
  show ?thesis
    using amount_agent_score [of "\<lambda>x. []" "empty_message\<lparr>amount := Some (AmountStr ''15000.00 USD'')\<rparr>"]
      amount_agent_score [of "\<lambda>x. []" "empty_message\<lparr>amount := Some (AmountStr ''USD'')\<rparr>"]
      p1 p2 k
    by simp
qed

lemma high_risk_length: "c \<in> HIGH_RISK_COUNTRIES \<Longrightarrow> length c = 2"
  by (auto simp: HIGH_RISK_COUNTRIES_def)

lemma short_bic_no_country: "length bic < 6 \<Longrightarrow> slice bic 4 6 \<notin> HIGH_RISK_COUNTRIES"
proof
  assume short: "length bic < 6" and "slice bic 4 6 \<in> HIGH_RISK_COUNTRIES"
  then have "length (slice bic 4 6) = 2" by (rule_tac high_risk_length)
  with short show False by (simp add: slice_def)
qed

text \<open>
  C8. The geographic agent takes the characters at positions 4 and 5 of the sender BIC and
  of the receiver BIC and returns \<open>min(1.0, s)\<close>, where \<open>s\<close> adds 0.4 for each side whose
  country code is one of \<open>IR\<close>, \<open>KP\<close>, \<open>SY\<close>, \<open>AF\<close>. A BIC too short to have both
  positions raises nothing and adds nothing. A sender BIC with country code \<open>IR\<close> gives a
  risk score of at least 0.4 and a reason that mentions \<open>IR\<close>.
\<close>

theorem geographic_agent_score:
  "risk_score (GeographicRiskAgent_analyze m) =
     Some (min 1
       ((if slice (dict_get [] (sender_bic m)) 4 6 \<in> {''IR'', ''KP'', ''SY'', ''AF''}
         then 0.4 else 0)
        + (if slice (dict_get [] (receiver_bic m)) 4 6 \<in> {''IR'', ''KP'', ''SY'', ''AF''}
           then 0.4 else 0)))
   \<and> (length (dict_get [] (sender_bic m)) < 6 \<and> length (dict_get [] (receiver_bic m)) < 6 \<longrightarrow>
        risk_score (GeographicRiskAgent_analyze m) = Some 0 \<and>
        fraud_reasons (GeographicRiskAgent_analyze m) = Some [])
   \<and> (slice (dict_get [] (sender_bic m)) 4 6 = ''IR'' \<longrightarrow>
        dict_get 0 (risk_score (GeographicRiskAgent_analyze m)) \<ge> 0.4 \<and>
        (\<exists>reason \<in> set (dict_get [] (fraud_reasons (GeographicRiskAgent_analyze m))).
           sublist ''IR'' reason))"
proof (intro conjI impI)
  show score: "risk_score (GeographicRiskAgent_analyze m) =
     Some (min 1
       ((if slice (dict_get [] (sender_bic m)) 4 6 \<in> {''IR'', ''KP'', ''SY'', ''AF''}
         then 0.4 else 0)
        + (if slice (dict_get [] (receiver_bic m)) 4 6 \<in> {''IR'', ''KP'', ''SY'', ''AF''}
           then 0.4 else 0)))"
    unfolding GeographicRiskAgent_analyze_def Let_def make_result_def add_risk_def
      HIGH_RISK_COUNTRIES_def
    by (simp add: min.commute)
next
  assume short: "length (dict_get [] (sender_bic m)) < 6 \<and>
    length (dict_get [] (receiver_bic m)) < 6"
  then have s: "slice (dict_get [] (sender_bic m)) 4 6 \<notin> HIGH_RISK_COUNTRIES"
    and r: "slice (dict_get [] (receiver_bic m)) 4 6 \<notin> HIGH_RISK_COUNTRIES"
    by (simp_all add: short_bic_no_country)
  show "risk_score (GeographicRiskAgent_analyze m) = Some 0"
    using s r by (simp add: GeographicRiskAgent_analyze_def Let_def make_result_def)
  show "fraud_reasons (GeographicRiskAgent_analyze m) = Some []"
    using s r by (simp add: GeographicRiskAgent_analyze_def Let_def make_result_def)
next
  assume ir: "slice (dict_get [] (sender_bic m)) 4 6 = ''IR''"
  then have mem: "slice (dict_get [] (sender_bic m)) 4 6 \<in> HIGH_RISK_COUNTRIES"
    by (simp add: HIGH_RISK_COUNTRIES_def)
  show "dict_get 0 (risk_score (GeographicRiskAgent_analyze m)) \<ge> 0.4"
    using mem
    by (simp add: GeographicRiskAgent_analyze_def Let_def make_result_def add_risk_def)
  have "''High-risk sender country: IR''
      \<in> set (dict_get [] (fraud_reasons (GeographicRiskAgent_analyze m)))"
    using mem ir
    by (simp add: GeographicRiskAgent_analyze_def Let_def make_result_def add_risk_def)
  moreover have "sublist ''IR'' ''High-risk sender country: IR''"
    by code_simp
  ultimately show "\<exists>reason \<in> set (dict_get [] (fraud_reasons (GeographicRiskAgent_analyze m))).
      sublist ''IR'' reason"
    by blast
qed

theorem geographic_agent_score_witness:
  "risk_score (GeographicRiskAgent_analyze
       (empty_message\<lparr>sender_bic := Some ''BANKIR33XXX'', receiver_bic := Some ''CHAS''\<rparr>))
     = Some 0.4 \<and>
   risk_score (GeographicRiskAgent_analyze
       (empty_message\<lparr>sender_bic := Some ''BANK'', receiver_bic := Some ''CHAS''\<rparr>)) = Some 0 \<and>
   (\<exists>reason \<in> set (dict_get [] (fraud_reasons (GeographicRiskAgent_analyze
       (empty_message\<lparr>sender_bic := Some ''BANKIR33XXX'', receiver_bic := Some ''CHAS''\<rparr>)))).
      sublist ''IR'' reason)"
proof -
  have s1: "slice ''BANKIR33XXX'' 4 6 = ''IR''" by (simp add: slice_def)
  have s2: "slice ''CHAS'' 4 6 = []" by (simp add: slice_def)
  have s3: "slice ''BANK'' 4 6 = []" by (simp add: slice_def)
  show ?thesis
    using geographic_agent_score [of "empty_message\<lparr>sender_bic := Some ''BANKIR33XXX'',
        receiver_bic := Some ''CHAS''\<rparr>"]
      geographic_agent_score [of "empty_message\<lparr>sender_bic := Some ''BANK'',
        receiver_bic := Some ''CHAS''\<rparr>"]
    by (simp add: empty_message_def s1 s2 s3)
qed

text \<open>
  C9. \<open>_process_message\<close> never raises, whatever the agent and the message: when the
  agent's \<open>analyze\<close> raises, the exception is caught and the wrapper returns a record with
  the agent's class name, risk 0, no fraud reasons and the exception's text under the key
  \<open>error\<close>; when \<open>analyze\<close> returns, the wrapper returns its result with the message id
  added. So every agent contributes a record.
\<close>

theorem process_message_never_raises:
  "(\<exists>r. process_message m ag = Inr r) \<and>
   (\<forall>e. analyze ag m = Inl e \<longrightarrow>
      process_message m ag =
        Inr \<lparr>agent = Some (class_name ag), risk_score = Some 0, fraud_reasons = Some [],
             result_message_id = None, error = Some (exception_str e)\<rparr>) \<and>
   (\<forall>r. analyze ag m = Inr r \<longrightarrow>
      process_message m ag =
        Inr (r\<lparr>result_message_id := Some (dict_get ''unknown'' (message_id m))\<rparr>))"
  by (cases "analyze ag m") (simp_all add: process_message_def)

theorem process_message_never_raises_witness:
  "process_message empty_message
     \<lparr>class_name = ''FailingAgent'', analyze = (\<lambda>m. Inl (ValueError ''boom''))\<rparr> =
     Inr \<lparr>agent = Some ''FailingAgent'', risk_score = Some 0, fraud_reasons = Some [],
          result_message_id = None, error = Some ''boom''\<rparr> \<and>
   map_sum id result_message_id
     (process_message (empty_message\<lparr>message_id := Some ''M1''\<rparr>)
        \<lparr>class_name = ''GeographicRiskAgent'',
         analyze = (\<lambda>m. Inr (GeographicRiskAgent_analyze m))\<rparr>) = Inr (Some ''M1'')"
  using process_message_never_raises [of empty_message
      "\<lparr>class_name = ''FailingAgent'', analyze = (\<lambda>m. Inl (ValueError ''boom''))\<rparr>"]
    process_message_never_raises [of "empty_message\<lparr>message_id := Some ''M1''\<rparr>"
      "\<lparr>class_name = ''GeographicRiskAgent'',
        analyze = (\<lambda>m. Inr (GeographicRiskAgent_analyze m))\<rparr>"]
  by (simp add: empty_message_def)

lemma evaluate_message_calls:
  "evaluate_message ev w m = (r, w') \<Longrightarrow>
     eval_calls w' = eval_calls w + 1 \<and> corr_calls w' = corr_calls w"
  by (auto simp: evaluate_message_def Let_def
      split: prod.splits sum.splits evaluation.splits option.splits)

lemma respond_calls:
  "respond co w m errs = (r, w') \<Longrightarrow>
     corr_calls w' = corr_calls w + 1 \<and> eval_calls w' = eval_calls w"
  by (auto simp: respond_def Let_def split: prod.splits sum.splits)

lemma optimize_message_calls:
  "optimize_message co w m errs = (m', w') \<Longrightarrow>
     corr_calls w' = corr_calls w + 1 \<and> eval_calls w' = eval_calls w"
  by (auto simp: optimize_message_def Let_def dest: respond_calls split: prod.splits)

lemma correction_loop_calls:
  "correction_loop ev co its w m = (r, w') \<Longrightarrow>
     eval_calls w' \<le> eval_calls w + length its \<and>
     corr_calls w' \<le> corr_calls w + length (filter (\<lambda>i. i < MAX_ITERATIONS - 1) its)"
proof (induction its arbitrary: w m r w')
  case Nil
  then show ?case by simp
next
  case (Cons i its)
  obtain r1 w1 where ev: "evaluate_message ev w m = (r1, w1)"
    by (cases "evaluate_message ev w m")
  note c1 = evaluate_message_calls [OF ev]
  show ?case
  proof (cases r1)
    case (Inl e)
    with Cons.prems ev c1 show ?thesis by simp
  next
    case (Inr ve)
    obtain v errs where ve: "ve = (v, errs)" by (cases ve)
    show ?thesis
    proof (cases v)
      case True
      with Cons.prems ev c1 Inr ve show ?thesis by simp
    next
      case False
      show ?thesis
      proof (cases "i < MAX_ITERATIONS - 1")
        case True
        obtain m2 w2 where opt: "optimize_message co w1 m errs = (m2, w2)"
          by (cases "optimize_message co w1 m errs")
        note c2 = optimize_message_calls [OF opt]
        from Cons.prems ev Inr ve False True opt
        have "correction_loop ev co its w2 m2 = (r, w')" by simp
        from Cons.IH [OF this] c1 c2 True show ?thesis by simp
      next
        case nolast: False
        from Cons.prems ev Inr ve False nolast
        have "correction_loop ev co its w1
            (m\<lparr>validation_status := Some ''INVALID'', validation_errors := Some errs\<rparr>) = (r, w')"
          by simp
        from Cons.IH [OF this] c1 nolast show ?thesis by simp
      qed
    qed
  qed
qed

lemma range_MAX_ITERATIONS: "[0..<MAX_ITERATIONS] = [0, 1, 2]"
  by (simp add: MAX_ITERATIONS_def upt_rec)

text \<open>
  C2. Whatever the evaluation and correction oracles answer, the loop over one message
  returns (it is a total function, defined by recursion over the three iteration numbers)
  after at most 3 evaluation calls and at most 2 correction calls. If the first evaluation
  answers \<open>is_valid = true\<close>, there is exactly 1 evaluation call and no correction call.
\<close>

theorem correction_loop_call_bounds:
  "eval_calls (snd (process_message_loop ev co w m)) \<le> eval_calls w + 3 \<and>
   corr_calls (snd (process_message_loop ev co w m)) \<le> corr_calls w + 2 \<and>
   (\<forall>errors s. ev (service w) m = (Inr (EvalDict (Some True) errors), s) \<longrightarrow>
      eval_calls (snd (process_message_loop ev co w m)) = eval_calls w + 1 \<and>
      corr_calls (snd (process_message_loop ev co w m)) = corr_calls w)"
proof (intro conjI allI impI)
  obtain r w' where res: "process_message_loop ev co w m = (r, w')"
    by (cases "process_message_loop ev co w m")
  then have "correction_loop ev co [0, 1, 2] w m = (r, w')"
    by (simp add: process_message_loop_def range_MAX_ITERATIONS)
  from correction_loop_calls [OF this]
  have "eval_calls w' \<le> eval_calls w + 3 \<and> corr_calls w' \<le> corr_calls w + 2"
    by (simp add: MAX_ITERATIONS_def)
  with res show "eval_calls (snd (process_message_loop ev co w m)) \<le> eval_calls w + 3"
    and "corr_calls (snd (process_message_loop ev co w m)) \<le> corr_calls w + 2"
    by simp_all
next
  fix errors s
  assume "ev (service w) m = (Inr (EvalDict (Some True) errors), s)"
  then have e: "evaluate_message ev w m =
      (Inr (True, dict_get [] errors), w\<lparr>service := s, eval_calls := eval_calls w + 1\<rparr>)"
    by (simp add: evaluate_message_def)
  show "eval_calls (snd (process_message_loop ev co w m)) = eval_calls w + 1"
    by (simp add: process_message_loop_def range_MAX_ITERATIONS e)
  show "corr_calls (snd (process_message_loop ev co w m)) = corr_calls w"
    by (simp add: process_message_loop_def range_MAX_ITERATIONS e)
qed

theorem correction_loop_call_bounds_witness:
  "eval_calls (snd (process_message_loop accepting_evaluator unavailable_corrector
      initial_world empty_message)) = 1 \<and>
   corr_calls (snd (process_message_loop accepting_evaluator unavailable_corrector
      initial_world empty_message)) = 0"
  using correction_loop_call_bounds [of accepting_evaluator unavailable_corrector
      initial_world empty_message]
  by (simp add: accepting_evaluator_def initial_world_def)


lemma correction_loop_bounds_attained:
  "eval_calls (snd (process_message_loop rejecting_evaluator unavailable_corrector
      initial_world empty_message)) = 3 \<and>
   corr_calls (snd (process_message_loop rejecting_evaluator unavailable_corrector
      initial_world empty_message)) = 2"
  by code_simp

lemma split_from_append:
  "\<forall>c \<in> set t. \<not> char_isspace c \<Longrightarrow> split_from cur (t @ s) = split_from (cur @ t) s"
  by (induction t arbitrary: cur) simp_all

lemma split_from_tokens:
  "\<forall>c \<in> set cur. \<not> char_isspace c \<Longrightarrow> tok \<in> set (split_from cur s) \<Longrightarrow>
     tok \<noteq> [] \<and> (\<forall>c \<in> set tok. \<not> char_isspace c)"
proof (induction s arbitrary: cur)
  case Nil
  then show ?case by (auto split: if_splits)
next
  case (Cons c s)
  show ?case
  proof (cases "char_isspace c")
    case True
    with Cons.prems have "tok = cur \<and> cur \<noteq> [] \<or> tok \<in> set (split_from [] s)"
      by (auto split: if_splits)
    then show ?thesis
    proof
      assume "tok = cur \<and> cur \<noteq> []"
      with Cons.prems(1) show ?thesis by simp
    next
      assume "tok \<in> set (split_from [] s)"
      then show ?thesis using Cons.IH [of "[]"] by simp
    qed
  next
    case False
    with Cons.prems have "tok \<in> set (split_from (cur @ [c]) s)" by simp
    moreover have "\<forall>x \<in> set (cur @ [c]). \<not> char_isspace x"
      using Cons.prems(1) False by simp
    ultimately show ?thesis using Cons.IH [of "cur @ [c]"] by blast
  qed
qed

lemma split_with_currency:
  assumes "split a = [p]"
  shows "split (p @ '' USD'') = [p, ''USD'']"
proof -
  have "p \<in> set (split_from [] a)" using assms by (simp add: split_def)
  then have p: "p \<noteq> [] \<and> (\<forall>c \<in> set p. \<not> char_isspace c)"
    using split_from_tokens [of "[]" p a] by simp
  then have "split_from [] (p @ '' USD'') = split_from p '' USD''"
    using split_from_append [of p "[]" "'' USD''"] by simp
  also have "\<dots> = [p, ''USD'']"
    using p by (simp add: char_isspace_def)
  finally show ?thesis by (simp add: split_def)
qed

lemma repair_amount_not_bare: "\<not> bare_amount (amount (repair_amount m))"
proof (cases "amount m")
  case None
  then show ?thesis by (simp add: repair_amount_def bare_amount_def)
next
  case (Some v)
  show ?thesis
  proof (cases v)
    case (AmountNum x)
    with Some show ?thesis by (simp add: repair_amount_def bare_amount_def)
  next
    case (AmountStr a)
    show ?thesis
    proof (cases "length (split a) = 1")
      case True
      then obtain p where p: "split a = [p]"
        by (cases "split a") simp_all
      from split_with_currency [OF p] Some AmountStr p show ?thesis
        by (simp add: repair_amount_def bare_amount_def)
    next
      case False
      with Some AmountStr show ?thesis
        by (simp add: repair_amount_def bare_amount_def Let_def)
    qed
  qed
qed

lemma optimize_message_not_bare:
  "optimize_message co w m errs = (m', w') \<Longrightarrow> \<not> bare_amount (amount m')"
  using repair_amount_not_bare
  by (auto simp: optimize_message_def Let_def split: prod.splits)

lemma correction_loop_keeps_not_bare:
  "\<not> bare_amount (amount m) \<Longrightarrow> correction_loop ev co its w m = (Inr m', w') \<Longrightarrow>
     \<not> bare_amount (amount m')"
proof (induction its arbitrary: w m)
  case Nil
  then show ?case by simp
next
  case (Cons i its)
  obtain r1 w1 where ev: "evaluate_message ev w m = (r1, w1)"
    by (cases "evaluate_message ev w m")
  show ?case
  proof (cases r1)
    case (Inl e)
    with Cons.prems ev show ?thesis by simp
  next
    case (Inr ve)
    obtain v errs where ve: "ve = (v, errs)" by (cases ve)
    show ?thesis
    proof (cases v)
      case True
      with Cons.prems ev Inr ve show ?thesis by auto
    next
      case False
      show ?thesis
      proof (cases "i < MAX_ITERATIONS - 1")
        case True
        obtain m2 w2 where opt: "optimize_message co w1 m errs = (m2, w2)"
          by (cases "optimize_message co w1 m errs")
        from Cons.prems ev Inr ve False True opt
        have "correction_loop ev co its w2 m2 = (Inr m', w')" by simp
        from Cons.IH [OF optimize_message_not_bare [OF opt] this] show ?thesis .
      next
        case nolast: False
        from Cons.prems ev Inr ve False nolast
        have "correction_loop ev co its w1
            (m\<lparr>validation_status := Some ''INVALID'', validation_errors := Some errs\<rparr>) =
            (Inr m', w')"
          by simp
        moreover have "\<not> bare_amount (amount
            (m\<lparr>validation_status := Some ''INVALID'', validation_errors := Some errs\<rparr>))"
          using Cons.prems(1) by simp
        ultimately show ?thesis using Cons.IH by blast
      qed
    qed
  qed
qed

lemma correction_loop_first_invalid:
  "evaluate_message ev w m = (Inr (False, errors), w1) \<Longrightarrow> i < MAX_ITERATIONS - 1 \<Longrightarrow>
     optimize_message co w1 m errors = (m2, w2) \<Longrightarrow>
     correction_loop ev co (i # its) w m = correction_loop ev co its w2 m2"
  by simp

text \<open>
  C4, as stated: after the loop the amount is never a bare amount. This fails for a message
  that the first evaluation accepts: the loop stops before any repair, and the amount
  \<open>15000.00\<close> is returned as it came.
\<close>

theorem amount_after_loop_counterexample:
  "map_sum id amount
     (fst (process_message_loop accepting_evaluator unavailable_corrector initial_world
        (empty_message\<lparr>amount := Some (AmountStr ''15000.00'')\<rparr>))) =
     Inr (Some (AmountStr ''15000.00'')) \<and>
   bare_amount (Some (AmountStr ''15000.00''))"
  by code_simp

text \<open>
  C4, amended. When the first evaluation of a message answers \<open>is_valid = false\<close> and the
  loop returns, whatever the oracles answer afterwards, the amount of the returned message
  is not a string of exactly one whitespace-separated part: the repair that follows every
  correction call has rewritten a lone part \<open>t\<close> to \<open>t USD\<close>. When the first evaluation
  answers \<open>is_valid = true\<close>, the amount is returned unchanged.
\<close>

theorem amount_after_loop:
  "(\<forall>errors w1 m'. evaluate_message ev w m = (Inr (False, errors), w1) \<longrightarrow>
      fst (process_message_loop ev co w m) = Inr m' \<longrightarrow> \<not> bare_amount (amount m')) \<and>
   (\<forall>errors w1. evaluate_message ev w m = (Inr (True, errors), w1) \<longrightarrow>
      map_sum id amount (fst (process_message_loop ev co w m)) = Inr (amount m))"
proof (intro conjI allI impI)
  fix errors w1 m'
  assume e: "evaluate_message ev w m = (Inr (False, errors), w1)"
    and r: "fst (process_message_loop ev co w m) = Inr m'"
  obtain m2 w2 where opt: "optimize_message co w1 m errors = (m2, w2)"
    by (cases "optimize_message co w1 m errors")
  have "process_message_loop ev co w m = correction_loop ev co (0 # [1, 2]) w m"
    by (simp add: process_message_loop_def range_MAX_ITERATIONS)
  also have "\<dots> = correction_loop ev co [1, 2] w2 m2"
    by (rule correction_loop_first_invalid [OF e _ opt]) (simp add: MAX_ITERATIONS_def)
  finally have "fst (correction_loop ev co [1, 2] w2 m2) = Inr m'"
    using r by simp
  then obtain w' where "correction_loop ev co [1, 2] w2 m2 = (Inr m', w')"
    by (cases "correction_loop ev co [1, 2] w2 m2") simp
  from correction_loop_keeps_not_bare [OF optimize_message_not_bare [OF opt] this]
  show "\<not> bare_amount (amount m')" .
next
  fix errors w1
  assume "evaluate_message ev w m = (Inr (True, errors), w1)"
  then show "map_sum id amount (fst (process_message_loop ev co w m)) = Inr (amount m)"
    by (simp add: process_message_loop_def range_MAX_ITERATIONS)
qed

theorem amount_after_loop_witness:
  "\<not> bare_amount (amount (projr (fst (process_message_loop rejecting_evaluator
       unavailable_corrector initial_world
       (empty_message\<lparr>amount := Some (AmountStr ''15000.00'')\<rparr>))))) \<and>
   map_sum id amount (fst (process_message_loop accepting_evaluator unavailable_corrector
       initial_world (empty_message\<lparr>amount := Some (AmountStr ''15000.00'')\<rparr>))) =
     Inr (Some (AmountStr ''15000.00''))"
proof -
  let ?m = "empty_message\<lparr>amount := Some (AmountStr ''15000.00'')\<rparr>"
  have e1: "evaluate_message rejecting_evaluator initial_world ?m =
      (Inr (False, [''invalid'']), initial_world\<lparr>service := (), eval_calls := 1\<rparr>)"
    by (simp add: evaluate_message_def rejecting_evaluator_def initial_world_def)
  have e2: "evaluate_message accepting_evaluator initial_world ?m =
      (Inr (True, []), initial_world\<lparr>service := (), eval_calls := 1\<rparr>)"
    by (simp add: evaluate_message_def accepting_evaluator_def initial_world_def)
  have r: "fst (process_message_loop rejecting_evaluator unavailable_corrector initial_world ?m) =
      Inr (projr (fst (process_message_loop rejecting_evaluator unavailable_corrector
        initial_world ?m)))"
    by code_simp
  show ?thesis
    using amount_after_loop [of rejecting_evaluator initial_world ?m unavailable_corrector]
      amount_after_loop [of accepting_evaluator initial_world ?m unavailable_corrector]
      e1 e2 r
    by (simp add: empty_message_def)
qed

lemma override_self: "override x x = x"
  by (cases x) simp_all

lemma dict_update_self: "dict_update m m = m"
  by (cases m) (simp add: dict_update_def override_self)

lemma optimize_message_on_failure:
  assumes "co (service w) m errs = (Inl e, s)"
  shows "optimize_message co w m errs =
    (repair_amount m, w\<lparr>service := s, corr_calls := corr_calls w + 1\<rparr>)"
  using assms by (simp add: optimize_message_def respond_def dict_update_self)

lemma evaluate_message_answers:
  assumes "\<forall>s m. \<exists>v errs s'. ev s m = (Inr (EvalDict (Some v) errs), s')"
  shows "\<exists>v errs w1. evaluate_message ev w m = (Inr (v, errs), w1)"
proof -
  from assms obtain v errs s' where "ev (service w) m = (Inr (EvalDict (Some v) errs), s')"
    by blast
  then show ?thesis by (simp add: evaluate_message_def)
qed

lemma correction_loop_returns:
  assumes "\<forall>s m. \<exists>v errs s'. ev s m = (Inr (EvalDict (Some v) errs), s')"
  shows "\<exists>m' w'. correction_loop ev co its w m = (Inr m', w')"
proof (induction its arbitrary: w m)
  case Nil
  show ?case by simp
next
  case (Cons i its)
  from evaluate_message_answers [OF assms] obtain v errs w1
    where ev: "evaluate_message ev w m = (Inr (v, errs), w1)" by blast
  show ?case
  proof (cases v)
    case True
    with ev show ?thesis by simp
  next
    case False
    show ?thesis
    proof (cases "i < MAX_ITERATIONS - 1")
      case True
      obtain m2 w2 where opt: "optimize_message co w1 m errs = (m2, w2)"
        by (cases "optimize_message co w1 m errs")
      from Cons.IH [of w2 m2] ev False True opt show ?thesis by simp
    next
      case nolast: False
      from Cons.IH [of w1 "m\<lparr>validation_status := Some ''INVALID'',
          validation_errors := Some errs\<rparr>"] ev False nolast
      show ?thesis by simp
    qed
  qed
qed

lemma process_messages_returns:
  assumes "\<forall>s m. \<exists>v errs s'. ev s m = (Inr (EvalDict (Some v) errs), s')"
  shows "\<exists>ms' w'. process_messages ev co w ms acc = (Inr ms', w') \<and>
    length ms' = length acc + length ms"
proof (induction ms arbitrary: w acc)
  case Nil
  show ?case by simp
next
  case (Cons m ms)
  from correction_loop_returns [OF assms] obtain m' w1
    where "process_message_loop ev co w m = (Inr m', w1)"
    unfolding process_message_loop_def by blast
  with Cons.IH [of w1 "acc @ [m']"] show ?case by simp
qed

text \<open>
  C6. When the correction oracle raises, \<open>optimize_message\<close> still returns: the exception
  is caught, nothing of the oracle is merged, and the result is the message with only the
  local repair applied, so the amount \<open>15000.00\<close> becomes \<open>15000.00 USD\<close>. No behaviour of
  the correction oracle stops the batch: with an evaluation oracle that answers every
  call, \<open>process_with_evaluator_optimizer\<close> returns one message for each message of the
  batch.
\<close>

theorem correction_failure_absorbed:
  "(\<forall>e s. co (service w) m errors = (Inl e, s) \<longrightarrow>
      optimize_message co w m errors =
        (repair_amount m, w\<lparr>service := s, corr_calls := corr_calls w + 1\<rparr>)) \<and>
   (amount m = Some (AmountStr ''15000.00'') \<longrightarrow>
      amount (repair_amount m) = Some (AmountStr ''15000.00 USD'')) \<and>
   ((\<forall>s m. \<exists>v errs s'. ev s m = (Inr (EvalDict (Some v) errs), s')) \<longrightarrow>
      (\<exists>ms'. fst (process_with_evaluator_optimizer ev co w ms) = Inr ms' \<and>
         length ms' = length ms))"
proof (intro conjI allI impI)
  fix e s assume "co (service w) m errors = (Inl e, s)"
  then show "optimize_message co w m errors =
      (repair_amount m, w\<lparr>service := s, corr_calls := corr_calls w + 1\<rparr>)"
    by (rule optimize_message_on_failure)
next
  have "split ''15000.00'' = [''15000.00'']" by code_simp
  moreover assume "amount m = Some (AmountStr ''15000.00'')"
  ultimately show "amount (repair_amount m) = Some (AmountStr ''15000.00 USD'')"
    by (simp add: repair_amount_def)
next
  assume "\<forall>s m. \<exists>v errs s'. ev s m = (Inr (EvalDict (Some v) errs), s')"
  from process_messages_returns [OF this, of co w ms "[]"]
  show "\<exists>ms'. fst (process_with_evaluator_optimizer ev co w ms) = Inr ms' \<and>
      length ms' = length ms"
    by (auto simp: process_with_evaluator_optimizer_def)
qed

theorem correction_failure_absorbed_witness:
  "map_prod amount corr_calls
     (optimize_message unavailable_corrector initial_world
        (empty_message\<lparr>amount := Some (AmountStr ''15000.00'')\<rparr>) [''no currency'']) =
     (Some (AmountStr ''15000.00 USD''), 1) \<and>
   length (projr (fst (process_with_evaluator_optimizer rejecting_evaluator
      unavailable_corrector initial_world
      [empty_message\<lparr>amount := Some (AmountStr ''15000.00'')\<rparr>, empty_message]))) = 2"
proof -
  let ?m = "empty_message\<lparr>amount := Some (AmountStr ''15000.00'')\<rparr>"
  have a: "amount ?m = Some (AmountStr ''15000.00'')" by simp
  have c: "unavailable_corrector (service initial_world) ?m [''no currency''] =
      (Inl (ServiceError ''unavailable''), ())"
    by (simp add: unavailable_corrector_def)
  have ev: "\<forall>s m. \<exists>v errs s'. rejecting_evaluator s m = (Inr (EvalDict (Some v) errs), s')"
    by (auto simp: rejecting_evaluator_def)
  from correction_failure_absorbed [of unavailable_corrector initial_world ?m
      "[''no currency'']" rejecting_evaluator "[?m, empty_message]"]
  have "optimize_message unavailable_corrector initial_world ?m [''no currency''] =
        (repair_amount ?m, initial_world\<lparr>service := (),
          corr_calls := corr_calls initial_world + 1\<rparr>)"
    and "amount (repair_amount ?m) = Some (AmountStr ''15000.00 USD'')"
    and "\<exists>ms'. fst (process_with_evaluator_optimizer rejecting_evaluator
      unavailable_corrector initial_world [?m, empty_message]) = Inr ms' \<and>
      length ms' = length [?m, empty_message]"
    using a c ev by blast+
  then show ?thesis
    by (auto simp: initial_world_def)
qed

lemma key_in_keys: "(k, v) \<in> set d \<Longrightarrow> k \<in> fst ` set d"
  by force

lemma dict_set_keys:
  "map fst (dict_set d k v) = (if k \<in> set (map fst d) then map fst d else map fst d @ [k])"
  by (induction d) (auto dest: key_in_keys)

lemma dict_set_key_set: "set (map fst (dict_set d k v)) = insert k (set (map fst d))"
  by (auto simp: dict_set_keys)

lemma dict_set_new: "k \<notin> set (map fst d) \<Longrightarrow> dict_set d k v = d @ [(k, v)]"
  by (induction d) auto

lemma dict_set_distinct: "distinct (map fst d) \<Longrightarrow> distinct (map fst (dict_set d k v))"
  by (simp add: dict_set_keys)

lemma dict_set_map_of: "map_of (dict_set d k v) = (map_of d)(k \<mapsto> v)"
  by (induction d) auto

lemma fold_dict_set_distinct:
  "distinct (map fst d) \<Longrightarrow>
     distinct (map fst (fold (\<lambda>(k, v) d. dict_set d k v) kvs d))"
  by (induction kvs arbitrary: d) (auto simp: dict_set_distinct)

lemma fold_dict_set_keys:
  "set (map fst (fold (\<lambda>(k, v) d. dict_set d k v) kvs d)) =
     set (map fst d) \<union> set (map fst kvs)"
proof (induction kvs arbitrary: d)
  case Nil
  show ?case by simp
next
  case (Cons kv kvs)
  obtain k v where kv: "kv = (k, v)" by (cases kv)
  have "set (map fst (fold (\<lambda>(k, v) d. dict_set d k v) kvs (dict_set d k v))) =
      set (map fst (dict_set d k v)) \<union> set (map fst kvs)"
    by (rule Cons.IH)
  then show ?case unfolding dict_set_key_set using kv by auto
qed

lemma fold_dict_set_map_of:
  "map_of (fold (\<lambda>(k, v) d. dict_set d k v) kvs d) = map_of d ++ map_of (rev kvs)"
  by (induction kvs arbitrary: d) (auto simp: dict_set_map_of)

lemma fold_dict_set_fresh:
  "distinct (map fst kvs) \<Longrightarrow> set (map fst kvs) \<inter> set (map fst d) = {} \<Longrightarrow>
     fold (\<lambda>(k, v) d. dict_set d k v) kvs d = d @ kvs"
proof (induction kvs arbitrary: d)
  case Nil
  show ?case by simp
next
  case (Cons kv kvs)
  obtain k v where kv: "kv = (k, v)" by (cases kv)
  have fresh: "k \<notin> set (map fst d)" using Cons.prems kv by auto
  have "set (map fst kvs) \<inter> set (map fst (d @ [(k, v)])) = {}"
    using Cons.prems kv by auto
  with Cons.IH [of "d @ [(k, v)]"] Cons.prems kv fresh show ?case
    by (simp add: dict_set_new)
qed

lemma map_of_rev_last:
  "map_of (rev kvs) k = Some v \<Longrightarrow>
     \<exists>j < length kvs. kvs ! j = (k, v) \<and> (\<forall>j'. j < j' \<and> j' < length kvs \<longrightarrow> fst (kvs ! j') \<noteq> k)"
proof (induction kvs rule: rev_induct)
  case Nil
  then show ?case by simp
next
  case (snoc kv kvs)
  show ?case
  proof (cases "fst kv = k")
    case True
    with snoc.prems have "kv = (k, v)" by (cases kv) simp
    then have "(kvs @ [kv]) ! length kvs = (k, v)" by simp
    moreover have "\<forall>j'. length kvs < j' \<and> j' < length (kvs @ [kv]) \<longrightarrow>
        fst ((kvs @ [kv]) ! j') \<noteq> k" by auto
    ultimately show ?thesis by (intro exI [of _ "length kvs"]) simp
  next
    case False
    with snoc.prems have "map_of (rev kvs) k = Some v" by (cases kv) auto
    from snoc.IH [OF this] obtain j where j: "j < length kvs" "kvs ! j = (k, v)"
      "\<forall>j'. j < j' \<and> j' < length kvs \<longrightarrow> fst (kvs ! j') \<noteq> k" by blast
    have "\<forall>j'. j < j' \<and> j' < length (kvs @ [kv]) \<longrightarrow> fst ((kvs @ [kv]) ! j') \<noteq> k"
    proof (intro allI impI)
      fix j' assume a: "j < j' \<and> j' < length (kvs @ [kv])"
      show "fst ((kvs @ [kv]) ! j') \<noteq> k"
      proof (cases "j' < length kvs")
        case True
        with a j(3) show ?thesis by (simp add: nth_append)
      next
        case False
        with a have "j' = length kvs" by simp
        with \<open>fst kv \<noteq> k\<close> show ?thesis by simp
      qed
    qed
    with j(1,2) show ?thesis
      by (intro exI [of _ j]) (simp add: nth_append)
  qed
qed


lemma submit_tasks_fold:
  "\<forall>m \<in> set ms. message_id m \<noteq> None \<Longrightarrow>
     submit_tasks agents timely j ms d =
       Inr (fold (\<lambda>(k, v) d. dict_set d k v)
              (map (\<lambda>(j, m). (the (message_id m), m, submit_agents agents timely j m))
                 (zip [j..<j + length ms] ms)) d)"
proof (induction ms arbitrary: j d)
  case Nil
  show ?case by simp
next
  case (Cons m ms)
  from Cons.prems obtain k where k: "message_id m = Some k" by auto
  have "[j..<j + length (m # ms)] = j # [Suc j..<Suc j + length ms]"
    by (simp del: upt_Suc add: upt_conv_Cons)
  then have z: "zip [j..<j + length (m # ms)] (m # ms) =
      (j, m) # zip [Suc j..<Suc j + length ms] ms"
    by simp
  from Cons.prems have "\<forall>m \<in> set ms. message_id m \<noteq> None" by simp
  from Cons.IH [OF this, of "Suc j" "dict_set d k (m, submit_agents agents timely j m)"]
  show ?case unfolding z using k by (simp add: Let_def)
qed

lemma entry_nth:
  assumes "j < length ms"
  shows "map (\<lambda>(j, m). (the (message_id m), m, submit_agents agents timely j m))
           (zip [0..<0 + length ms] ms) ! j =
         (the (message_id (ms ! j)), ms ! j, submit_agents agents timely j (ms ! j))"
  using assms by simp

lemma entry_keys:
  "map fst (map (\<lambda>(j, m). (the (message_id m), m, submit_agents agents timely j m))
      (zip [0..<0 + length ms] ms)) = map (\<lambda>m. the (message_id m)) ms"
  by (rule nth_equalityI) simp_all

lemma collect_entry_verdict:
  "collect_entry (k, m, submit_agents agents timely j m) = verdict agents timely j m"
  by (simp add: collect_entry_def verdict_def)

lemma distinct_the_ids:
  "\<forall>m \<in> set ms. message_id m \<noteq> None \<Longrightarrow>
     distinct (map (\<lambda>m. the (message_id m)) ms) = distinct (map message_id ms)"
proof (induction ms)
  case Nil
  show ?case by simp
next
  case (Cons m ms)
  have "the (message_id m) \<in> (\<lambda>m. the (message_id m)) ` set ms \<longleftrightarrow>
      message_id m \<in> message_id ` set ms"
  proof
    assume "the (message_id m) \<in> (\<lambda>m. the (message_id m)) ` set ms"
    then obtain m' where m': "m' \<in> set ms" "the (message_id m) = the (message_id m')" by auto
    from m'(1) Cons.prems have "message_id m \<noteq> None" "message_id m' \<noteq> None" by auto
    with m'(2) have "message_id m = message_id m'" by auto
    with m'(1) show "message_id m \<in> message_id ` set ms" by blast
  next
    assume "message_id m \<in> message_id ` set ms"
    then show "the (message_id m) \<in> (\<lambda>m. the (message_id m)) ` set ms" by force
  qed
  with Cons show ?case by simp
qed


lemma process_batch_parallel_entries:
  assumes "\<forall>m \<in> set ms. message_id m \<noteq> None"
  shows "process_batch_parallel agents timely ms =
    Inr (map collect_entry
      (fold (\<lambda>(k, v) d. dict_set d k v)
         (map (\<lambda>(j, m). (the (message_id m), m, submit_agents agents timely j m))
            (zip [0..<0 + length ms] ms)) []))"
  using submit_tasks_fold [OF assms, of agents timely 0 "[]"]
  by (simp add: process_batch_parallel_def fold_snoc_map)

lemma inj_on_the:
  assumes "None \<notin> A"
  shows "inj_on the A"
proof (rule inj_onI)
  fix x y :: "'a option"
  assume "x \<in> A" "y \<in> A" and eq: "the x = the y"
  with assms have "x \<noteq> None" "y \<noteq> None" by metis+
  then obtain a b where "x = Some a" "y = Some b" by auto
  with eq show "x = y" by simp
qed

text \<open>
  C10. For a batch in which every message has a \<open>message_id\<close>: when the ids are pairwise
  distinct, the scheduler returns one annotated message for each message of the batch, in
  the order of the batch (the message at position \<open>j\<close> with its verdict). When two
  messages share an id, the later message takes the earlier one's place in the dictionary
  of submitted tasks: the scheduler returns one message for each distinct id, fewer than
  the batch holds, and each returned message is the verdict on the last message of the
  batch that has its id, so the earlier ones get no verdict.
\<close>

theorem fan_out_results:
  "(\<forall>m \<in> set ms. message_id m \<noteq> None) \<longrightarrow>
     (distinct (map message_id ms) \<longrightarrow>
        process_batch_parallel agents timely ms =
          Inr (map (\<lambda>(j, m). verdict agents timely j m) (enumerate 0 ms))) \<and>
     (\<not> distinct (map message_id ms) \<longrightarrow>
        (\<exists>rs. process_batch_parallel agents timely ms = Inr rs \<and>
           length rs = card (message_id ` set ms) \<and> length rs < length ms \<and>
           (\<forall>r \<in> set rs. \<exists>j < length ms. r = verdict agents timely j (ms ! j) \<and>
              (\<forall>j'. j < j' \<and> j' < length ms \<longrightarrow>
                 message_id (ms ! j') \<noteq> message_id (ms ! j)))))"
proof (intro impI conjI)
  assume ids: "\<forall>m \<in> set ms. message_id m \<noteq> None"
  let ?E = "\<lambda>(j, m). (the (message_id m), m, submit_agents agents timely j m)"
  let ?kvs = "map ?E (zip [0..<0 + length ms] ms)"
  let ?d = "fold (\<lambda>(k, v) d. dict_set d k v) ?kvs []"
  note pb = process_batch_parallel_entries [OF ids, of agents timely]
  have keys: "map fst ?kvs = map (\<lambda>m. the (message_id m)) ms"
    by (rule entry_keys)
  {
    assume "distinct (map message_id ms)"
    then have "distinct (map fst ?kvs)"
      unfolding keys using distinct_the_ids [OF ids] by simp
    then have "?d = ?kvs"
      using fold_dict_set_fresh [of ?kvs "[]"] by simp
    moreover have "map collect_entry ?kvs =
        map (\<lambda>(j, m). verdict agents timely j m) (enumerate 0 ms)"
      by (auto simp: enumerate_eq_zip collect_entry_verdict)
    ultimately show "process_batch_parallel agents timely ms =
        Inr (map (\<lambda>(j, m). verdict agents timely j m) (enumerate 0 ms))"
      using pb by simp
  }
  {
    assume dup: "\<not> distinct (map message_id ms)"
    have dk: "distinct (map fst ?d)"
      using fold_dict_set_distinct [of "[]" ?kvs] by simp
    have ks: "set (map fst ?d) = (\<lambda>m. the (message_id m)) ` set ms"
      using fold_dict_set_keys [of ?kvs "[]"] unfolding keys by simp
    have "length ?d = length (map fst ?d)" by simp
    also have "\<dots> = card (set (map fst ?d))"
      using dk by (simp only: distinct_card)
    finally have len: "length ?d = card ((\<lambda>m. the (message_id m)) ` set ms)"
      unfolding ks .
    have "(\<lambda>m. the (message_id m)) ` set ms = the ` (message_id ` set ms)"
      by (simp add: image_image)
    moreover have "card (the ` (message_id ` set ms)) = card (message_id ` set ms)"
      using ids by (intro card_image inj_on_the) auto
    ultimately have len1: "length ?d = card (message_id ` set ms)"
      using len by simp
    have "\<not> distinct (map (\<lambda>m. the (message_id m)) ms)"
      using dup distinct_the_ids [OF ids] by simp
    then have "card (set (map (\<lambda>m. the (message_id m)) ms)) \<noteq>
        length (map (\<lambda>m. the (message_id m)) ms)"
      using card_distinct by blast
    moreover have "card (set (map (\<lambda>m. the (message_id m)) ms)) \<le>
        length (map (\<lambda>m. the (message_id m)) ms)"
      by (rule card_length)
    ultimately have len2: "length ?d < length ms"
      using len by simp
    have last: "\<exists>j < length ms. collect_entry e = verdict agents timely j (ms ! j) \<and>
        (\<forall>j'. j < j' \<and> j' < length ms \<longrightarrow> message_id (ms ! j') \<noteq> message_id (ms ! j))"
      if e: "e \<in> set ?d" for e
    proof -
      obtain k v where kv: "e = (k, v)" by (cases e)
      with e dk have "map_of ?d k = Some v" by simp
      then have "map_of (rev ?kvs) k = Some v"
        using fold_dict_set_map_of [of ?kvs "[]"] by simp
      from map_of_rev_last [OF this] obtain j where j: "j < length ?kvs" "?kvs ! j = (k, v)"
        "\<forall>j'. j < j' \<and> j' < length ?kvs \<longrightarrow> fst (?kvs ! j') \<noteq> k" by blast
      from j(1) have jl: "j < length ms" by simp
      from j(2) entry_nth [OF jl, of agents timely]
      have v: "k = the (message_id (ms ! j))" "v = (ms ! j, submit_agents agents timely j (ms ! j))"
        by simp_all
      have "message_id (ms ! j') \<noteq> message_id (ms ! j)" if "j < j' \<and> j' < length ms" for j'
      proof -
        from that have "j' < length ms" by simp
        from entry_nth [OF this, of agents timely] j(3) that v(1)
        show ?thesis by auto
      qed
      with jl kv v show ?thesis
        by (intro exI [of _ j]) (simp add: collect_entry_verdict)
    qed
    show "\<exists>rs. process_batch_parallel agents timely ms = Inr rs \<and>
        length rs = card (message_id ` set ms) \<and> length rs < length ms \<and>
        (\<forall>r \<in> set rs. \<exists>j < length ms. r = verdict agents timely j (ms ! j) \<and>
           (\<forall>j'. j < j' \<and> j' < length ms \<longrightarrow> message_id (ms ! j') \<noteq> message_id (ms ! j)))"
    proof (rule exI [of _ "map collect_entry ?d"], intro conjI ballI)
      show "process_batch_parallel agents timely ms = Inr (map collect_entry ?d)"
        by (rule pb)
      show "length (map collect_entry ?d) = card (message_id ` set ms)"
        using len1 by simp
      show "length (map collect_entry ?d) < length ms"
        using len2 by simp
    next
      fix r assume "r \<in> set (map collect_entry ?d)"
      then obtain e where "e \<in> set ?d" "r = collect_entry e" by auto
      with last [of e]
      show "\<exists>j < length ms. r = verdict agents timely j (ms ! j) \<and>
          (\<forall>j'. j < j' \<and> j' < length ms \<longrightarrow> message_id (ms ! j') \<noteq> message_id (ms ! j))"
        by simp
    qed
  }
qed


theorem fan_out_results_witness:
  "process_batch_parallel (list_of_agents (\<lambda>x. [])) (\<lambda>j k. True)
     [empty_message\<lparr>message_id := Some ''A''\<rparr>, empty_message\<lparr>message_id := Some ''B''\<rparr>] =
     Inr [verdict (list_of_agents (\<lambda>x. [])) (\<lambda>j k. True) 0
            (empty_message\<lparr>message_id := Some ''A''\<rparr>),
          verdict (list_of_agents (\<lambda>x. [])) (\<lambda>j k. True) 1
            (empty_message\<lparr>message_id := Some ''B''\<rparr>)] \<and>
   length (projr (process_batch_parallel (list_of_agents (\<lambda>x. [])) (\<lambda>j k. True)
     [empty_message\<lparr>message_id := Some ''A''\<rparr>,
      empty_message\<lparr>message_id := Some ''A'', reference := Some ''R2''\<rparr>])) = 1"
proof -
  let ?a = "empty_message\<lparr>message_id := Some ''A''\<rparr>"
  let ?b = "empty_message\<lparr>message_id := Some ''B''\<rparr>"
  let ?c = "empty_message\<lparr>message_id := Some ''A'', reference := Some ''R2''\<rparr>"
  have h1: "\<forall>m \<in> set [?a, ?b]. message_id m \<noteq> None" by simp
  have d1: "distinct (map message_id [?a, ?b])" by simp
  have h2: "\<forall>m \<in> set [?a, ?c]. message_id m \<noteq> None" by simp
  have d2: "\<not> distinct (map message_id [?a, ?c])" by simp
  have c2: "card (message_id ` set [?a, ?c]) = 1" by simp
  from fan_out_results [of "[?a, ?b]" "list_of_agents (\<lambda>x. [])" "\<lambda>j k. True"] h1 d1
  have r1: "process_batch_parallel (list_of_agents (\<lambda>x. [])) (\<lambda>j k. True) [?a, ?b] =
      Inr (map (\<lambda>(j, m). verdict (list_of_agents (\<lambda>x. [])) (\<lambda>j k. True) j m)
        (enumerate 0 [?a, ?b]))"
    by blast
  from fan_out_results [of "[?a, ?c]" "list_of_agents (\<lambda>x. [])" "\<lambda>j k. True"] h2 d2
  obtain rs where "process_batch_parallel (list_of_agents (\<lambda>x. [])) (\<lambda>j k. True) [?a, ?c] =
      Inr rs" "length rs = card (message_id ` set [?a, ?c])"
    by blast
  with c2 r1 show ?thesis by simp
qed

end
